theory Spec2Isabelle
  imports Main
begin

section \<open>Python library functions the processor calls\<close>

text \<open>
  File names are modelled as \<^typ>\<open>string\<close> (lists of 8-bit characters) and are read as
  ASCII text. \<open>str.lower\<close> is modelled on the ASCII letters: \<open>A\<close>..\<open>Z\<close> (codes 65..90)
  are moved to \<open>a\<close>..\<open>z\<close>, every other character is kept.
\<close>

definition is_upper_char :: "char \<Rightarrow> bool" where
  "is_upper_char c = (65 \<le> (of_char c :: nat) \<and> (of_char c :: nat) \<le> 90)"

definition lower_char :: "char \<Rightarrow> char" where
  "lower_char c = (if is_upper_char c then char_of ((of_char c :: nat) + 32) else c)"

definition str_lower :: "string \<Rightarrow> string" where
  "str_lower s = map lower_char s"

text \<open>
  \<open>s.rfind(c)\<close> for a one-character needle: the highest index at which \<open>c\<close> stands in
  \<open>s\<close>, or \<open>-1\<close> when it does not occur.
\<close>

definition rfind :: "string \<Rightarrow> char \<Rightarrow> int" where
  "rfind s c =
     (if c \<in> set s
      then int (length s) - 1 - int (length (takeWhile (\<lambda>x. x \<noteq> c) (rev s)))
      else - 1)"

text \<open>
  \<open>pathlib.PurePath.suffix\<close> (Python 3.9 to 3.13) on a name that is a single path
  component, which is what \<open>os.listdir\<close> returns:
  \<^verbatim>\<open>
    name = self.name
    i = name.rfind('.')
    if 0 < i < len(name) - 1: return name[i:]
    else: return ''
  \<close>
\<close>

definition path_suffix :: "string \<Rightarrow> string" where
  "path_suffix name =
     (let i = rfind name CHR ''.''
      in if 0 < i \<and> i < int (length name) - 1 then drop (nat i) name else [])"

text \<open>
  \<open>os.path.splitext\<close> on POSIX (\<open>genericpath._splitext\<close> with \<open>sep = '/'\<close>, no
  \<open>altsep\<close>, \<open>extsep = '.'\<close>):
  \<^verbatim>\<open>
    sepIndex = p.rfind(sep)
    dotIndex = p.rfind(extsep)
    if dotIndex > sepIndex:
        # skip all leading dots
        filenameIndex = sepIndex + 1
        while filenameIndex < dotIndex:
            if p[filenameIndex:filenameIndex+1] != extsep:
                return p[:dotIndex], p[dotIndex:]
            filenameIndex += 1
    return p, p[:0]
  \<close>
  \<open>splitext_scan\<close> is the \<open>while\<close> loop: it answers whether the loop leaves through its
  \<open>return\<close>, that is whether a character other than the dot stands at some index from
  \<open>filenameIndex\<close> up to \<open>dotIndex\<close>.
\<close>

function splitext_scan :: "string \<Rightarrow> nat \<Rightarrow> nat \<Rightarrow> bool" where
  "splitext_scan p filenameIndex dotIndex =
     (if filenameIndex < dotIndex
      then (if take 1 (drop filenameIndex p) \<noteq> ''.'' then True
            else splitext_scan p (filenameIndex + 1) dotIndex)
      else False)"
  by pat_completeness auto
termination
  by (relation "measure (\<lambda>(p, filenameIndex, dotIndex). dotIndex - filenameIndex)") auto

declare splitext_scan.simps [simp del]

definition splitext :: "string \<Rightarrow> string \<times> string" where
  "splitext p =
     (let sepIndex = rfind p CHR ''/'';
          dotIndex = rfind p CHR ''.''
      in if dotIndex > sepIndex \<and> splitext_scan p (nat (sepIndex + 1)) (nat dotIndex)
         then (take (nat dotIndex) p, drop (nat dotIndex) p)
         else (p, []))"

text \<open>
  \<open>os.path.join(a, b)\<close> and \<open>os.path.basename(p)\<close> on POSIX:
  \<^verbatim>\<open>
    if b.startswith(sep): path = b
    elif not path or path.endswith(sep): path += b
    else: path += sep + b
  \<close>
  \<^verbatim>\<open>
    i = p.rfind(sep) + 1
    return p[i:]
  \<close>
\<close>

definition join :: "string \<Rightarrow> string \<Rightarrow> string" where
  "join a b =
     (if take 1 b = ''/'' then b
      else if a = [] \<or> take 1 (rev a) = ''/'' then a @ b
      else a @ ''/'' @ b)"

definition basename :: "string \<Rightarrow> string" where
  "basename p = drop (nat (rfind p CHR ''/'' + 1)) p"

section \<open>Exceptions, the outside world and the state of a run\<close>

text \<open>
  A Python exception is its class and its message. Three classes are told apart, which
  is what the control flow of the processor depends on: \<open>ValueError\<close> (the class the
  processor itself raises), any other class derived from \<open>Exception\<close>, and the classes
  derived from \<open>BaseException\<close> only (\<open>KeyboardInterrupt\<close>, \<open>SystemExit\<close>), which a clause
  \<open>except Exception\<close> does not catch.
\<close>

datatype exc_class = ValueError | OtherException | BaseExceptionOnly

datatype exn = Exn (exn_class: exc_class) (exn_msg: string)

definition is_Exception :: "exn \<Rightarrow> bool" where
  "is_Exception e = (exn_class e \<noteq> BaseExceptionOnly)"

datatype writer = FileBasedDataWriter string

record options =
  lang :: string
  show_log :: bool
  layout_model :: string
  formula_enable :: bool

text \<open>
  Everything outside the two source files is a parameter: the file system, the process
  environment and the \<open>magic_pdf\<close> engine. \<open>'w\<close> is the state of that outside world and
  \<open>'d\<close> the type of a loaded dataset. A call that can change the world returns the new
  world, and a call that can raise returns \<open>Inl\<close> of the exception.
  \<open>apply_pipe_dump\<close> stands for the chain
  \<open>ds.apply(doc_analyze, ocr=True, ...).pipe_ocr_mode(image_writer).dump_md(md_writer, name, image_dir_name)\<close>:
  its arguments are the dataset, the options of the run, the two writers, the name of
  the markdown file and the name of the image directory.
\<close>

record ('w, 'd) engine =
  abspath :: "'w \<Rightarrow> string \<Rightarrow> string"
  path_exists :: "'w \<Rightarrow> string \<Rightarrow> bool"
  path_isdir :: "'w \<Rightarrow> string \<Rightarrow> bool"
  listdir :: "'w \<Rightarrow> string \<Rightarrow> exn + string list"
  makedirs :: "'w \<Rightarrow> string \<Rightarrow> (exn + unit) \<times> 'w"
  get_local_models_dir :: "'w \<Rightarrow> exn + string option"
  resolve :: "'w \<Rightarrow> string \<Rightarrow> string"
  setenv :: "'w \<Rightarrow> string \<Rightarrow> string \<Rightarrow> 'w"
  read_local_images :: "'w \<Rightarrow> string \<Rightarrow> string list \<Rightarrow> (exn + 'd list) \<times> 'w"
  apply_pipe_dump ::
    "'w \<Rightarrow> 'd \<Rightarrow> options \<Rightarrow> writer \<Rightarrow> writer \<Rightarrow> string \<Rightarrow> string \<Rightarrow> (exn + unit) \<times> 'w"
  clean_memory :: "'w \<Rightarrow> (exn + unit) \<times> 'w"

text \<open>
  The calls a run makes to the engine are recorded in order, each when it is made and
  whatever its outcome: loading a file, transforming a dataset into the markdown file
  of the given name, and releasing memory.
\<close>

datatype 'd event = ReadImages string | Transform 'd string | CleanMemory

record ('w, 'd) run_state =
  world :: 'w
  calls :: "'d event list"

fun is_Transform :: "'d event \<Rightarrow> bool" where
  "is_Transform (Transform ds n) = True"
| "is_Transform e = False"

section \<open>The class \<open>BatchImageProcessor\<close>\<close>

text \<open>
  The calls of \<open>logger.info\<close> and \<open>logger.error\<close> are left out of the model: they
  write log lines only and take no part in the control flow or in the values returned.
\<close>

record processor =
  output_dir :: string
  image_dir :: string
  image_dir_name :: string
  supported_formats :: "string list"
  image_writer :: writer
  md_writer :: writer

definition default_formats :: "string list" where
  "default_formats = [''.png'', ''.jpg'', ''.jpeg'']"

text \<open>\<open>_init_environment\<close> (lines 54 to 73).\<close>

definition init_environment ::
  "('w, 'd) engine \<Rightarrow> string \<Rightarrow> string \<Rightarrow> string \<Rightarrow> 'w \<Rightarrow> (exn + unit) \<times> 'w" where
  "init_environment E vram_size ocr_thresh ocr_batch_num w =
     (case get_local_models_dir E w of
        Inl e \<Rightarrow> (Inl e, w)
      | Inr models_dir \<Rightarrow>
          (let w1 = (case models_dir of
                       None \<Rightarrow> w
                     | Some d \<Rightarrow>
                         if d = [] then w
                         else setenv E w ''LOCAL_MODELS_DIR'' (resolve E w d));
               w2 = setenv E w1 ''VIRTUAL_VRAM_SIZE'' vram_size;
               w3 = setenv E w2 ''OCR_DET_DB_THRESH'' ocr_thresh;
               w4 = setenv E w3 ''OCR_REC_BATCH_NUM'' ocr_batch_num
           in (Inr (), w4)))"

text \<open>
  \<open>__init__\<close> (lines 20 to 52). The argument \<open>supported_formats\<close> is \<open>None\<close> or a list;
  \<open>supported_formats or [...]\<close> takes the default when the argument is falsy, that is
  \<open>None\<close> or the empty list.
\<close>

definition BatchImageProcessor_init ::
  "('w, 'd) engine \<Rightarrow> string \<Rightarrow> string \<Rightarrow> string \<Rightarrow> string \<Rightarrow> string list option \<Rightarrow> 'w
     \<Rightarrow> (exn + processor) \<times> 'w" where
  "BatchImageProcessor_init E out_dir vram_size ocr_thresh ocr_batch_num formats_arg w =
     (let img_dir = join out_dir ''images'';
          img_dir_name = basename img_dir
      in case makedirs E w img_dir of
           (Inl e, w1) \<Rightarrow> (Inl e, w1)
         | (Inr u, w1) \<Rightarrow>
             (let formats = (case formats_arg of
                               None \<Rightarrow> default_formats
                             | Some xs \<Rightarrow> if xs = [] then default_formats else xs)
              in case init_environment E vram_size ocr_thresh ocr_batch_num w1 of
                   (Inl e, w2) \<Rightarrow> (Inl e, w2)
                 | (Inr u2, w2) \<Rightarrow>
                     (Inr \<lparr>output_dir = out_dir, image_dir = img_dir,
                           image_dir_name = img_dir_name, supported_formats = formats,
                           image_writer = FileBasedDataWriter img_dir,
                           md_writer = FileBasedDataWriter out_dir\<rparr>, w2)))"

text \<open>
  \<open>_collect_image_files\<close> (lines 127 to 144): the loop over the listing, with the list
  \<open>image_files\<close> as accumulator.
\<close>

fun collect_loop ::
  "string list \<Rightarrow> string \<Rightarrow> string list \<Rightarrow> (string \<times> string) list \<Rightarrow> (string \<times> string) list" where
  "collect_loop formats directory [] image_files = image_files"
| "collect_loop formats directory (file # files) image_files =
     (let suffix = path_suffix file
      in if str_lower suffix \<in> set formats
         then collect_loop formats directory files (image_files @ [(join directory file, file)])
         else collect_loop formats directory files image_files)"

definition collect_image_files ::
  "('w, 'd) engine \<Rightarrow> processor \<Rightarrow> string \<Rightarrow> ('w, 'd) run_state
     \<Rightarrow> (exn + (string \<times> string) list) \<times> ('w, 'd) run_state" where
  "collect_image_files E P directory s =
     (case listdir E (world s) directory of
        Inl e \<Rightarrow> (Inl e, s)
      | Inr files \<Rightarrow> (Inr (collect_loop (supported_formats P) directory files []), s))"

text \<open>
  \<open>_load_datasets\<close> (lines 146 to 169): the loop over the candidates, with \<open>dss\<close> and
  \<open>ds_paths\<close> as accumulators. An exception of a class derived from \<open>Exception\<close> is
  caught and the loop goes on; any other one leaves the loop.
\<close>

fun load_loop ::
  "('w, 'd) engine \<Rightarrow> processor \<Rightarrow> (string \<times> string) list \<Rightarrow> 'd list \<Rightarrow> string list
     \<Rightarrow> ('w, 'd) run_state \<Rightarrow> (exn + 'd list \<times> string list) \<times> ('w, 'd) run_state" where
  "load_loop E P [] dss ds_paths s = (Inr (dss, ds_paths), s)"
| "load_loop E P ((image_path, image_name) # rest) dss ds_paths s =
     (let (r, w1) = read_local_images E (world s) image_path (supported_formats P);
          s1 = \<lparr>world = w1, calls = calls s @ [ReadImages image_path]\<rparr>
      in case r of
           Inr ds \<Rightarrow>
             if ds \<noteq> []
             then load_loop E P rest (dss @ ds) (ds_paths @ replicate (length ds) image_name) s1
             else load_loop E P rest dss ds_paths s1
         | Inl e \<Rightarrow>
             if is_Exception e then load_loop E P rest dss ds_paths s1
             else (Inl e, s1))"

definition load_datasets ::
  "('w, 'd) engine \<Rightarrow> processor \<Rightarrow> (string \<times> string) list \<Rightarrow> ('w, 'd) run_state
     \<Rightarrow> (exn + 'd list \<times> string list) \<times> ('w, 'd) run_state" where
  "load_datasets E P image_files s = load_loop E P image_files [] [] s"

text \<open>
  The name of the markdown file of an item (lines 202 and 213):
  \<open>filename = os.path.splitext(image_name)[0]\<close>, then \<open>f"{filename}.md"\<close>.
\<close>

definition md_name :: "string \<Rightarrow> string" where
  "md_name image_name = fst (splitext image_name) @ ''.md''"

text \<open>
  \<open>_process_images\<close> (lines 171 to 232): the loop over \<open>zip(dss, ds_paths)\<close>, with the
  counters \<open>processed\<close> and \<open>failed\<close> as accumulators. Inside the \<open>try\<close>, the transform is
  called, then \<open>processed\<close> is incremented, then \<open>clean_memory()\<close> is called; the
  \<open>except Exception\<close> clause increments \<open>failed\<close> for an exception raised anywhere in
  the \<open>try\<close>. An exception of any other class leaves the loop.
\<close>

fun process_loop ::
  "('w, 'd) engine \<Rightarrow> processor \<Rightarrow> options \<Rightarrow> ('d \<times> string) list \<Rightarrow> int \<Rightarrow> int
     \<Rightarrow> ('w, 'd) run_state \<Rightarrow> (exn + int \<times> int) \<times> ('w, 'd) run_state" where
  "process_loop E P opts [] processed failed s = (Inr (processed, failed), s)"
| "process_loop E P opts ((ds, image_name) # rest) processed failed s =
     (let (r, w1) = apply_pipe_dump E (world s) ds opts (image_writer P) (md_writer P)
                      (md_name image_name) (image_dir_name P);
          s1 = \<lparr>world = w1, calls = calls s @ [Transform ds (md_name image_name)]\<rparr>
      in case r of
           Inr u \<Rightarrow>
             (let processed1 = processed + 1;
                  (c, w2) = clean_memory E w1;
                  s2 = \<lparr>world = w2, calls = calls s1 @ [CleanMemory]\<rparr>
              in case c of
                   Inr u2 \<Rightarrow> process_loop E P opts rest processed1 failed s2
                 | Inl e \<Rightarrow>
                     if is_Exception e then process_loop E P opts rest processed1 (failed + 1) s2
                     else (Inl e, s2))
         | Inl e \<Rightarrow>
             if is_Exception e then process_loop E P opts rest processed (failed + 1) s1
             else (Inl e, s1))"

definition process_images ::
  "('w, 'd) engine \<Rightarrow> processor \<Rightarrow> 'd list \<Rightarrow> string list \<Rightarrow> options \<Rightarrow> ('w, 'd) run_state
     \<Rightarrow> (exn + int \<times> int \<times> int) \<times> ('w, 'd) run_state" where
  "process_images E P dss ds_paths opts s =
     (let total = int (length dss)
      in case process_loop E P opts (zip dss ds_paths) 0 0 s of
           (Inl e, s') \<Rightarrow> (Inl e, s')
         | (Inr (processed, failed), s') \<Rightarrow> (Inr (total, processed, failed), s'))"

text \<open>
  \<open>process_directory\<close> (lines 75 to 125). The test
  \<open>not os.path.exists(d) or not os.path.isdir(d)\<close> evaluates its second operand only
  when the first is false.
\<close>

definition invalid_directory :: "string \<Rightarrow> exn" where
  "invalid_directory abs_input_dir = Exn ValueError (''Invalid directory: '' @ abs_input_dir)"

definition no_valid_images :: exn where
  "no_valid_images = Exn ValueError ''No valid images could be loaded''"

definition process_directory ::
  "('w, 'd) engine \<Rightarrow> processor \<Rightarrow> string \<Rightarrow> options \<Rightarrow> ('w, 'd) run_state
     \<Rightarrow> (exn + int \<times> int \<times> int) \<times> ('w, 'd) run_state" where
  "process_directory E P input_directory opts s =
     (let abs_input_dir = abspath E (world s) input_directory
      in if (if \<not> path_exists E (world s) abs_input_dir then True
             else \<not> path_isdir E (world s) abs_input_dir)
         then (Inl (invalid_directory abs_input_dir), s)
         else
           case collect_image_files E P abs_input_dir s of
             (Inl e, s1) \<Rightarrow> (Inl e, s1)
           | (Inr image_files, s1) \<Rightarrow>
               (case load_datasets E P image_files s1 of
                  (Inl e, s2) \<Rightarrow> (Inl e, s2)
                | (Inr (dss, ds_paths), s2) \<Rightarrow>
                    if dss = [] then (Inl no_valid_images, s2)
                    else process_images E P dss ds_paths opts s2))"

section \<open>Notions the properties are stated with\<close>

text \<open>
  The spec's words for the scan: the extension of an entry is compared with the
  accepted extensions without regard to case.
\<close>

definition matches_case_insensitive :: "string list \<Rightarrow> string \<Rightarrow> bool" where
  "matches_case_insensitive formats file =
     (str_lower (path_suffix file) \<in> set (map str_lower formats))"

text \<open>What the scan of the source tests for an entry.\<close>

definition retained :: "string list \<Rightarrow> string \<Rightarrow> bool" where
  "retained formats file = (str_lower (path_suffix file) \<in> set formats)"

fun is_CleanMemory :: "'d event \<Rightarrow> bool" where
  "is_CleanMemory CleanMemory = True"
| "is_CleanMemory e = False"

text \<open>
  A sequence of calls in which every transform is followed by at most one release of
  memory, and every release of memory follows a transform directly.
\<close>

fun clean_follows_transform :: "'d event list \<Rightarrow> bool" where
  "clean_follows_transform [] = True"
| "clean_follows_transform (Transform ds n # CleanMemory # es) = clean_follows_transform es"
| "clean_follows_transform (Transform ds n # es) = clean_follows_transform es"
| "clean_follows_transform (e # es) = False"

definition transform_of :: "'d \<times> string \<Rightarrow> 'd event" where
  "transform_of item = Transform (fst item) (md_name (snd item))"

definition error_class :: "(exn + 'a) \<times> 's \<Rightarrow> exc_class option" where
  "error_class res = (case fst res of Inl e \<Rightarrow> Some (exn_class e) | Inr v \<Rightarrow> None)"

section \<open>A concrete engine for running the model\<close>

text \<open>
  The world is a counter of the engine calls that may change it. The working directory
  is \<open>/work\<close>, and \<open>/work/in\<close> is the only directory that exists; its listing, the
  outcome of loading a path, the outcome of transforming a dataset and the outcome of
  releasing memory are given.
\<close>

definition demo_engine ::
  "string list \<Rightarrow> (string \<Rightarrow> exn + string list) \<Rightarrow> (string \<Rightarrow> exn + unit) \<Rightarrow> (exn + unit)
     \<Rightarrow> (nat, string) engine" where
  "demo_engine files load transform release =
     \<lparr>abspath = (\<lambda>w p. join ''/work'' p),
      path_exists = (\<lambda>w p. p = ''/work/in''),
      path_isdir = (\<lambda>w p. p = ''/work/in''),
      listdir = (\<lambda>w p. Inr files),
      makedirs = (\<lambda>w p. (Inr (), w + 1)),
      get_local_models_dir = (\<lambda>w. Inr None),
      resolve = (\<lambda>w p. p),
      setenv = (\<lambda>w k v. w + 1),
      read_local_images = (\<lambda>w p suffixes. (load p, w + 1)),
      apply_pipe_dump = (\<lambda>w ds opts iw mw name dir_name. (transform ds, w + 1)),
      clean_memory = (\<lambda>w. (release, w + 1))\<rparr>"

definition demo_processor :: processor where
  "demo_processor =
     \<lparr>output_dir = ''output'', image_dir = ''output/images'', image_dir_name = ''images'',
      supported_formats = default_formats,
      image_writer = FileBasedDataWriter ''output/images'',
      md_writer = FileBasedDataWriter ''output''\<rparr>"

definition demo_options :: options where
  "demo_options =
     \<lparr>lang = ''ch'', show_log = True, layout_model = ''doclayout_yolo'', formula_enable = False\<rparr>"

definition start :: "(nat, string) run_state" where
  "start = \<lparr>world = 0, calls = []\<rparr>"

text \<open>Loading \<open>/work/in/x\<close> gives one dataset named \<open>x\<close>, except that \<open>bad.png\<close> cannot be read.\<close>

definition demo_load :: "string \<Rightarrow> exn + string list" where
  "demo_load p =
     (if p = ''/work/in/bad.png'' then Inl (Exn OtherException ''cannot identify image file'')
      else Inr [basename p])"

text \<open>Transforming succeeds, except for the dataset \<open>corrupt.jpg\<close>.\<close>

definition demo_transform :: "string \<Rightarrow> exn + unit" where
  "demo_transform ds =
     (if ds = ''corrupt.jpg'' then Inl (Exn OtherException ''analysis failed'') else Inr ())"

section \<open>Facts about the library functions\<close>

lemma lower_char_not_upper: "\<not> is_upper_char (lower_char c)"
  unfolding lower_char_def is_upper_char_def by auto


lemma lower_char_idem: "lower_char (lower_char c) = lower_char c"
  using lower_char_not_upper[of c] by (subst (1) lower_char_def) simp

lemma str_lower_idem: "str_lower (str_lower s) = str_lower s"
  by (simp add: str_lower_def lower_char_idem)

lemma rfind_absent: "c \<notin> set s \<Longrightarrow> rfind s c = - 1"
  by (simp add: rfind_def)

lemma rfind_last:
  "c \<notin> set e \<Longrightarrow> rfind (r @ c # e) c = int (length r)"
proof -
  assume a: "c \<notin> set e"
  then have "takeWhile (\<lambda>x. x \<noteq> c) (rev e @ c # rev r) = rev e"
    by (auto simp: takeWhile_tail)
  then show ?thesis by (simp add: rfind_def)
qed

lemma splitext_scan_iff:
  "splitext_scan p i j = (\<exists>k. i \<le> k \<and> k < j \<and> take 1 (drop k p) \<noteq> ''.'')"
proof (induction p i j rule: splitext_scan.induct)
  case (1 p i j)
  show ?case
  proof (cases "i < j")
    case False
    then show ?thesis by (subst splitext_scan.simps) auto
  next
    case lt: True
    show ?thesis
    proof (cases "take 1 (drop i p) \<noteq> ''.''")
      case True
      with lt show ?thesis by (subst splitext_scan.simps) auto
    next
      case False
      with lt have "splitext_scan p i j = splitext_scan p (i + 1) j"
        by (subst splitext_scan.simps) simp
      also have "\<dots> = (\<exists>k. i + 1 \<le> k \<and> k < j \<and> take 1 (drop k p) \<noteq> ''.'')"
        using "1.IH" lt False by simp
      also have "\<dots> = (\<exists>k. i \<le> k \<and> k < j \<and> take 1 (drop k p) \<noteq> ''.'')"
      proof
        assume "\<exists>k. i + 1 \<le> k \<and> k < j \<and> take 1 (drop k p) \<noteq> ''.''"
        then obtain k where "i + 1 \<le> k" "k < j" "take 1 (drop k p) \<noteq> ''.''" by blast
        then have "i \<le> k \<and> k < j \<and> take 1 (drop k p) \<noteq> ''.''" by simp
        then show "\<exists>k. i \<le> k \<and> k < j \<and> take 1 (drop k p) \<noteq> ''.''" ..
      next
        assume "\<exists>k. i \<le> k \<and> k < j \<and> take 1 (drop k p) \<noteq> ''.''"
        then obtain k where k: "i \<le> k" "k < j" "take 1 (drop k p) \<noteq> ''.''" by blast
        with False have "k \<noteq> i" by auto
        with k have "i + 1 \<le> k \<and> k < j \<and> take 1 (drop k p) \<noteq> ''.''" by simp
        then show "\<exists>k. i + 1 \<le> k \<and> k < j \<and> take 1 (drop k p) \<noteq> ''.''" ..
      qed
      finally show ?thesis .
    qed
  qed
qed

lemma take1_drop_prefix: "k < length r \<Longrightarrow> take 1 (drop k (r @ q)) = [r ! k]"
proof (induction r arbitrary: k)
  case Nil
  then show ?case by simp
next
  case (Cons a r)
  show ?case
  proof (cases k)
    case 0
    then show ?thesis by simp
  next
    case (Suc m)
    with Cons.prems have "m < length r" by simp
    from Cons.IH[OF this] Suc show ?thesis by simp
  qed
qed


lemma take1_drop_prefix_dot:
  assumes "k < length r"
  shows "(take 1 (drop k (r @ q)) \<noteq> ''.'') = (r ! k \<noteq> CHR ''.'')"
proof -
  have "([r ! k] \<noteq> ''.'') = (r ! k \<noteq> CHR ''.'')" by simp
  then show ?thesis by (simp only: take1_drop_prefix[OF assms])
qed

lemma splitext_scan_prefix:
  "splitext_scan (r @ q) 0 (length r) = (\<exists>c\<in>set r. c \<noteq> CHR ''.'')"
proof
  assume "splitext_scan (r @ q) 0 (length r)"
  then obtain k where k: "k < length r" "take 1 (drop k (r @ q)) \<noteq> ''.''"
    by (subst (asm) splitext_scan_iff) blast
  have "r ! k \<noteq> CHR ''.''"
    using k(2) unfolding take1_drop_prefix_dot[OF k(1)] .
  with k(1) show "\<exists>c\<in>set r. c \<noteq> CHR ''.''" using nth_mem by blast
next
  assume "\<exists>c\<in>set r. c \<noteq> CHR ''.''"
  then obtain k where k: "k < length r" "r ! k \<noteq> CHR ''.''"
    by (metis in_set_conv_nth)
  have "take 1 (drop k (r @ q)) \<noteq> ''.''"
    using k(2) unfolding take1_drop_prefix_dot[OF k(1)] .
  with k(1) have "0 \<le> k \<and> k < length r \<and> take 1 (drop k (r @ q)) \<noteq> ''.''" by blast
  then have "\<exists>k'. 0 \<le> k' \<and> k' < length r \<and> take 1 (drop k' (r @ q)) \<noteq> ''.''" ..
  then show "splitext_scan (r @ q) 0 (length r)"
    by (subst splitext_scan_iff)
qed


lemma splitext_split:
  assumes "CHR ''/'' \<notin> set r" "CHR ''/'' \<notin> set e" "CHR ''.'' \<notin> set e"
  shows "splitext (r @ CHR ''.'' # e) =
           (if \<exists>c\<in>set r. c \<noteq> CHR ''.'' then (r, CHR ''.'' # e) else (r @ CHR ''.'' # e, []))"
proof -
  have sep: "rfind (r @ CHR ''.'' # e) CHR ''/'' = - 1"
    using assms by (simp add: rfind_absent)
  have dot: "rfind (r @ CHR ''.'' # e) CHR ''.'' = int (length r)"
    using assms(3) by (rule rfind_last)
  have scan: "splitext_scan (r @ CHR ''.'' # e) (nat (- 1 + 1)) (nat (int (length r)))
                = (\<exists>c\<in>set r. c \<noteq> CHR ''.'')"
    using splitext_scan_prefix[of r "CHR ''.'' # e"] by simp
  show ?thesis
    unfolding splitext_def sep dot Let_def scan
    by simp
qed

lemma splitext_no_dot: "CHR ''.'' \<notin> set n \<Longrightarrow> splitext n = (n, [])"
proof -
  assume a: "CHR ''.'' \<notin> set n"
  have "length (takeWhile (\<lambda>x. x \<noteq> CHR ''/'') (rev n)) \<le> length n"
    using length_takeWhile_le[of _ "rev n"] by simp
  then have "rfind n CHR ''/'' \<ge> - 1" by (simp add: rfind_def)
  moreover have "rfind n CHR ''.'' = - 1" using a by (rule rfind_absent)
  ultimately show ?thesis
    unfolding splitext_def Let_def by simp
qed

lemma path_suffix_split:
  assumes "CHR ''.'' \<notin> set e"
  shows "path_suffix (r @ CHR ''.'' # e) = (if r \<noteq> [] \<and> e \<noteq> [] then CHR ''.'' # e else [])"
proof -
  have dot: "rfind (r @ CHR ''.'' # e) CHR ''.'' = int (length r)"
    using assms by (rule rfind_last)
  show ?thesis unfolding path_suffix_def dot Let_def by auto
qed

lemma collect_loop_filter:
  "collect_loop formats directory files acc =
     acc @ map (\<lambda>f. (join directory f, f)) (filter (retained formats) files)"
  by (induction files arbitrary: acc) (simp_all add: retained_def Let_def)

section \<open>Facts about the loops\<close>

lemma clean_follows_transform_Cons:
  "clean_follows_transform new \<Longrightarrow> clean_follows_transform (Transform ds n # new)"
proof (cases new)
  case Nil
  then show ?thesis by simp
next
  case (Cons e es)
  assume "clean_follows_transform new"
  with Cons show ?thesis by (cases e) simp_all
qed


lemma process_loop_calls:
  "process_loop E P opts items processed failed s = (r, s') \<Longrightarrow>
     \<exists>new. calls s' = calls s @ new \<and> clean_follows_transform new"
proof (induction items arbitrary: processed failed s)
  case Nil
  then show ?case by simp
next
  case (Cons item items)
  obtain ds image_name where item: "item = (ds, image_name)" by (cases item)
  obtain r1 w1 where t: "apply_pipe_dump E (world s) ds opts (image_writer P) (md_writer P)
                      (md_name image_name) (image_dir_name P) = (r1, w1)" by (cases "apply_pipe_dump E (world s) ds opts (image_writer P) (md_writer P)
                      (md_name image_name) (image_dir_name P)")
  obtain c w2 where c: "clean_memory E w1 = (c, w2)" by (cases "clean_memory E w1")
  let ?s1 = "\<lparr>world = w1, calls = calls s @ [Transform ds (md_name image_name)]\<rparr>"
  let ?s2 = "\<lparr>world = w2, calls = calls s @ [Transform ds (md_name image_name), CleanMemory]\<rparr>"
  from Cons.prems item t c
  consider (stop1) "calls s' = calls ?s1"
    | (stop2) "calls s' = calls ?s2"
    | (go1) p f where "process_loop E P opts items p f ?s1 = (r, s')"
    | (go2) p f where "process_loop E P opts items p f ?s2 = (r, s')"
    by (auto simp: Let_def split: sum.splits if_splits)
  then show ?case
  proof cases
    case stop1
    then show ?thesis by simp
  next
    case stop2
    then show ?thesis by simp
  next
    case go1
    from Cons.IH[OF this] obtain new where "calls s' = calls ?s1 @ new" "clean_follows_transform new"
      by blast
    then have "calls s' = calls s @ (Transform ds (md_name image_name) # new)
               \<and> clean_follows_transform (Transform ds (md_name image_name) # new)"
      by (simp add: clean_follows_transform_Cons)
    then show ?thesis by blast
  next
    case go2
    from Cons.IH[OF this] obtain new where "calls s' = calls ?s2 @ new" "clean_follows_transform new"
      by blast
    then have "calls s' = calls s @ (Transform ds (md_name image_name) # CleanMemory # new)
               \<and> clean_follows_transform (Transform ds (md_name image_name) # CleanMemory # new)"
      by simp
    then show ?thesis by blast
  qed
qed

lemma process_loop_Cons_cases:
  assumes "process_loop E P opts ((ds, image_name) # rest) processed failed s = (r, s')"
  obtains
    (transform_failed) e w1 where
      "apply_pipe_dump E (world s) ds opts (image_writer P) (md_writer P)
         (md_name image_name) (image_dir_name P) = (Inl e, w1)"
      "is_Exception e"
      "process_loop E P opts rest processed (failed + 1)
         \<lparr>world = w1, calls = calls s @ [Transform ds (md_name image_name)]\<rparr> = (r, s')"
  | (transform_aborted) e w1 where
      "apply_pipe_dump E (world s) ds opts (image_writer P) (md_writer P)
         (md_name image_name) (image_dir_name P) = (Inl e, w1)"
      "\<not> is_Exception e" "r = Inl e"
      "s' = \<lparr>world = w1, calls = calls s @ [Transform ds (md_name image_name)]\<rparr>"
  | (succeeded) w1 w2 where
      "apply_pipe_dump E (world s) ds opts (image_writer P) (md_writer P)
         (md_name image_name) (image_dir_name P) = (Inr (), w1)"
      "clean_memory E w1 = (Inr (), w2)"
      "process_loop E P opts rest (processed + 1) failed
         \<lparr>world = w2, calls = calls s @ [Transform ds (md_name image_name), CleanMemory]\<rparr> = (r, s')"
  | (clean_failed) e w1 w2 where
      "apply_pipe_dump E (world s) ds opts (image_writer P) (md_writer P)
         (md_name image_name) (image_dir_name P) = (Inr (), w1)"
      "clean_memory E w1 = (Inl e, w2)" "is_Exception e"
      "process_loop E P opts rest (processed + 1) (failed + 1)
         \<lparr>world = w2, calls = calls s @ [Transform ds (md_name image_name), CleanMemory]\<rparr> = (r, s')"
  | (clean_aborted) e w1 w2 where
      "apply_pipe_dump E (world s) ds opts (image_writer P) (md_writer P)
         (md_name image_name) (image_dir_name P) = (Inr (), w1)"
      "clean_memory E w1 = (Inl e, w2)" "\<not> is_Exception e" "r = Inl e"
      "s' = \<lparr>world = w2, calls = calls s @ [Transform ds (md_name image_name), CleanMemory]\<rparr>"
proof -
  obtain r1 w1 where t: "apply_pipe_dump E (world s) ds opts (image_writer P) (md_writer P)
      (md_name image_name) (image_dir_name P) = (r1, w1)"
    by (cases "apply_pipe_dump E (world s) ds opts (image_writer P) (md_writer P)
      (md_name image_name) (image_dir_name P)")
  obtain c w2 where c: "clean_memory E w1 = (c, w2)" by (cases "clean_memory E w1")
  show thesis
  proof (cases r1)
    case (Inl e)
    with assms t show thesis
      by (cases "is_Exception e") (auto intro: transform_failed transform_aborted)
  next
    case (Inr u)
    show thesis
    proof (cases c)
      case (Inl e)
      with assms t c Inr show thesis
        by (cases "is_Exception e") (auto simp: Let_def intro: clean_failed clean_aborted)
    next
      case inr: (Inr u2)
      with assms t c Inr show thesis
        by (auto simp: Let_def intro: succeeded)
    qed
  qed
qed

lemma transform_of_pair: "transform_of (ds, n) = Transform ds (md_name n)"
  by (simp add: transform_of_def)

lemma process_loop_transforms:
  "process_loop E P opts items processed failed s = (Inr v, s') \<Longrightarrow>
     filter is_Transform (calls s') = filter is_Transform (calls s) @ map transform_of items"
proof (induction items arbitrary: processed failed s)
  case Nil
  then show ?case by simp
next
  case (Cons item items)
  obtain ds image_name where item: "item = (ds, image_name)" by (cases item)
  from Cons.prems[unfolded item] show ?case
  proof (cases rule: process_loop_Cons_cases)
    case (transform_failed e w1)
    from Cons.IH[OF transform_failed(3)] show ?thesis by (simp add: item transform_of_pair)
  next
    case (succeeded w1 w2)
    from Cons.IH[OF succeeded(3)] show ?thesis by (simp add: item transform_of_pair)
  next
    case (clean_failed e w1 w2)
    from Cons.IH[OF clean_failed(4)] show ?thesis by (simp add: item transform_of_pair)
  qed simp_all
qed

lemma process_loop_transforms_aborted:
  "process_loop E P opts items processed failed s = (Inl e, s') \<Longrightarrow>
     \<exists>k<length items. filter is_Transform (calls s') =
        filter is_Transform (calls s) @ map transform_of (take (Suc k) items)"
proof (induction items arbitrary: processed failed s)
  case Nil
  then show ?case by simp
next
  case (Cons item items)
  obtain ds image_name where item: "item = (ds, image_name)" by (cases item)
  have step: "\<exists>k<length (item # items). filter is_Transform (calls s') =
        filter is_Transform (calls s) @ map transform_of (take (Suc k) (item # items))"
    if "\<exists>k<length items. filter is_Transform (calls s') =
          filter is_Transform (calls s) @ transform_of item # map transform_of (take (Suc k) items)"
  proof -
    from that obtain k where "k < length items" "filter is_Transform (calls s') =
          filter is_Transform (calls s) @ transform_of item # map transform_of (take (Suc k) items)"
      by blast
    then have "Suc k < length (item # items) \<and> filter is_Transform (calls s') =
        filter is_Transform (calls s) @ map transform_of (take (Suc (Suc k)) (item # items))"
      by simp
    then show ?thesis by blast
  qed
  have stop: "\<exists>k<length (item # items). filter is_Transform (calls s') =
        filter is_Transform (calls s) @ map transform_of (take (Suc k) (item # items))"
    if "filter is_Transform (calls s') = filter is_Transform (calls s) @ [transform_of item]"
  proof -
    from that have "0 < length (item # items) \<and> filter is_Transform (calls s') =
        filter is_Transform (calls s) @ map transform_of (take (Suc 0) (item # items))"
      by simp
    then show ?thesis by blast
  qed
  from Cons.prems[unfolded item] show ?case
  proof (cases rule: process_loop_Cons_cases)
    case (transform_failed e w1)
    from Cons.IH[OF transform_failed(3)] show ?thesis
      by (intro step) (simp add: item transform_of_pair)
  next
    case (transform_aborted e w1)
    then show ?thesis by (intro stop) (simp add: item transform_of_pair)
  next
    case (succeeded w1 w2)
    from Cons.IH[OF succeeded(3)] show ?thesis
      by (intro step) (simp add: item transform_of_pair)
  next
    case (clean_failed e w1 w2)
    from Cons.IH[OF clean_failed(4)] show ?thesis
      by (intro step) (simp add: item transform_of_pair)
  next
    case (clean_aborted e w1 w2)
    then show ?thesis by (intro stop) (simp add: item transform_of_pair)
  qed
qed

lemma process_loop_cleans:
  "process_loop E P opts items processed failed s = (Inr (processed', failed'), s') \<Longrightarrow>
     int (length (filter is_CleanMemory (calls s'))) =
       int (length (filter is_CleanMemory (calls s))) + (processed' - processed)"
proof (induction items arbitrary: processed failed s)
  case Nil
  then show ?case by simp
next
  case (Cons item items)
  obtain ds image_name where item: "item = (ds, image_name)" by (cases item)
  from Cons.prems[unfolded item] show ?case
  proof (cases rule: process_loop_Cons_cases)
    case (transform_failed e w1)
    from Cons.IH[OF transform_failed(3)] show ?thesis by simp
  next
    case (succeeded w1 w2)
    from Cons.IH[OF succeeded(3)] show ?thesis by simp
  next
    case (clean_failed e w1 w2)
    from Cons.IH[OF clean_failed(4)] show ?thesis by simp
  qed simp_all
qed


lemma process_loop_counts_exact:
  assumes "\<And>w e. fst (clean_memory E w) = Inl e \<Longrightarrow> \<not> is_Exception e"
  shows "process_loop E P opts items processed failed s = (Inr (processed', failed'), s') \<Longrightarrow>
     processed' + failed' = processed + failed + int (length items)"
proof (induction items arbitrary: processed failed s)
  case Nil
  then show ?case by simp
next
  case (Cons item items)
  obtain ds image_name where item: "item = (ds, image_name)" by (cases item)
  from Cons.prems[unfolded item] show ?case
  proof (cases rule: process_loop_Cons_cases)
    case (transform_failed e w1)
    from Cons.IH[OF transform_failed(3)] show ?thesis by simp
  next
    case (succeeded w1 w2)
    from Cons.IH[OF succeeded(3)] show ?thesis by simp
  next
    case (clean_failed e w1 w2)
    with assms[of w1 e] show ?thesis by simp
  qed simp_all
qed


lemma load_loop_lengths:
  "load_loop E P image_files dss ds_paths s = (Inr (dss', ds_paths'), s') \<Longrightarrow>
     length dss = length ds_paths \<Longrightarrow> length dss' = length ds_paths'"
proof (induction image_files arbitrary: dss ds_paths s)
  case Nil
  then show ?case by simp
next
  case (Cons f fs)
  obtain image_path image_name where f: "f = (image_path, image_name)" by (cases f)
  obtain r w1 where rd: "read_local_images E (world s) image_path (supported_formats P) = (r, w1)"
    by (cases "read_local_images E (world s) image_path (supported_formats P)")
  let ?s1 = "\<lparr>world = w1, calls = calls s @ [ReadImages image_path]\<rparr>"
  from Cons.prems(1) f rd
  consider (skip) "load_loop E P fs dss ds_paths ?s1 = (Inr (dss', ds_paths'), s')"
    | (add) ds where "load_loop E P fs (dss @ ds) (ds_paths @ replicate (length ds) image_name) ?s1
                        = (Inr (dss', ds_paths'), s')"
    by (auto simp: Let_def split: sum.splits if_splits)
  then show ?case
  proof cases
    case skip
    from Cons.IH[OF this Cons.prems(2)] show ?thesis .
  next
    case add
    from Cons.IH[OF this] Cons.prems(2) show ?thesis by simp
  qed
qed

lemma load_loop_no_transform:
  "load_loop E P image_files dss ds_paths s = (r, s') \<Longrightarrow>
     filter is_Transform (calls s') = filter is_Transform (calls s)"
proof (induction image_files arbitrary: dss ds_paths s)
  case Nil
  then show ?case by simp
next
  case (Cons f fs)
  obtain image_path image_name where f: "f = (image_path, image_name)" by (cases f)
  obtain r1 w1 where rd: "read_local_images E (world s) image_path (supported_formats P) = (r1, w1)"
    by (cases "read_local_images E (world s) image_path (supported_formats P)")
  let ?s1 = "\<lparr>world = w1, calls = calls s @ [ReadImages image_path]\<rparr>"
  from Cons.prems(1) f rd
  consider (stop) "s' = ?s1"
    | (go) dss1 ds_paths1 where "load_loop E P fs dss1 ds_paths1 ?s1 = (r, s')"
    by (auto simp: Let_def split: sum.splits if_splits)
  then show ?case
  proof cases
    case stop
    then show ?thesis by simp
  next
    case go
    from Cons.IH[OF this] show ?thesis by simp
  qed
qed



section \<open>The claims\<close>



text \<open>
  Claim C10. Constructing the processor with \<open>supported_formats = []\<close> gives what
  omitting the argument gives, in result and in effect on the world: the accepted
  extensions are the default list \<open>.png\<close>, \<open>.jpg\<close>, \<open>.jpeg\<close>. Whatever the argument, the
  accepted extensions of a constructed processor are never the empty list.
\<close>

theorem empty_formats_fall_back:
  "BatchImageProcessor_init E out_dir vram_size ocr_thresh ocr_batch_num (Some []) w =
     BatchImageProcessor_init E out_dir vram_size ocr_thresh ocr_batch_num None w
   \<and> (BatchImageProcessor_init E out_dir vram_size ocr_thresh ocr_batch_num None w = (Inr P, w')
        \<longrightarrow> supported_formats P = default_formats)
   \<and> (BatchImageProcessor_init E out_dir vram_size ocr_thresh ocr_batch_num formats_arg w = (Inr P', w'')
        \<longrightarrow> supported_formats P' \<noteq> [])"
  by (auto simp: BatchImageProcessor_init_def Let_def default_formats_def
           split: prod.splits sum.splits option.splits if_splits)

theorem empty_formats_fall_back_witness:
  "BatchImageProcessor_init (demo_engine [] demo_load demo_transform (Inr ()))
       ''output'' ''8'' ''0.2'' ''6'' (Some []) 0 = (Inr demo_processor, 4)
   \<and> BatchImageProcessor_init (demo_engine [] demo_load demo_transform (Inr ()))
       ''output'' ''8'' ''0.2'' ''6'' None 0 = (Inr demo_processor, 4)
   \<and> supported_formats demo_processor = default_formats
   \<and> supported_formats demo_processor \<noteq> []"
proof -
  have run: "BatchImageProcessor_init (demo_engine [] demo_load demo_transform (Inr ()))
       ''output'' ''8'' ''0.2'' ''6'' None 0 = (Inr demo_processor, 4)"
    by (simp add: BatchImageProcessor_init_def init_environment_def demo_engine_def
          demo_processor_def join_def basename_def rfind_def Let_def)
  from empty_formats_fall_back[of "demo_engine [] demo_load demo_transform (Inr ())"
      "''output''" "''8''" "''0.2''" "''6''" 0 demo_processor 4 None demo_processor 4] run
  show ?thesis by (simp add: default_formats_def)
qed

text \<open>
  Claim C6, as stated, fails: with the accepted extension \<open>.PNG\<close> the entry \<open>A.PNG\<close>
  matches the accepted set under a comparison without regard to case (its extension is
  even equal to the accepted one), and the scan returns nothing.
\<close>

theorem uppercase_format_not_case_insensitive:
  "matches_case_insensitive [''.PNG''] ''A.PNG'' \<and>
   collect_loop [''.PNG''] ''/work/in'' [''A.PNG''] [] = []"
  by code_simp

text \<open>
  Claim C6, amended. The scan returns exactly the entries whose lower-cased suffix is
  in the configured list as it is written, in the order of the listing; these and the
  entries left out make up the listing. Whether an entry is returned does not depend on
  the case of its suffix. When every configured extension is in lower case, the entries
  returned are those whose extension matches the accepted set without regard to case.
\<close>

theorem collect_returns_retained:
  "collect_loop formats directory files [] =
     map (\<lambda>f. (join directory f, f)) (filter (retained formats) files)
   \<and> length (collect_loop formats directory files [])
       + length (filter (\<lambda>f. \<not> retained formats f) files) = length files
   \<and> (str_lower (path_suffix f) = str_lower (path_suffix g)
        \<longrightarrow> retained formats f = retained formats g)
   \<and> ((\<forall>e\<in>set formats. str_lower e = e)
        \<longrightarrow> retained formats = matches_case_insensitive formats)"
proof -
  have "(\<forall>e\<in>set formats. str_lower e = e) \<longrightarrow> map str_lower formats = formats"
    by (simp add: map_idI)
  then have "(\<forall>e\<in>set formats. str_lower e = e)
        \<longrightarrow> retained formats = matches_case_insensitive formats"
    by (auto simp: retained_def matches_case_insensitive_def fun_eq_iff)
  moreover have "length (filter (retained formats) files)
       + length (filter (\<lambda>f. \<not> retained formats f) files) = length files"
    using sum_length_filter_compl[of "retained formats" files] by simp
  ultimately show ?thesis
    by (simp add: collect_loop_filter retained_def)
qed

theorem collect_returns_retained_witness:
  "collect_loop default_formats ''/work/in'' [''A.PNG'', ''notes.txt'', ''b.jpeg''] [] =
     [(''/work/in/A.PNG'', ''A.PNG''), (''/work/in/b.jpeg'', ''b.jpeg'')]
   \<and> filter (\<lambda>f. \<not> retained default_formats f) [''A.PNG'', ''notes.txt'', ''b.jpeg'']
       = [''notes.txt'']
   \<and> str_lower (path_suffix ''A.PNG'') = str_lower (path_suffix ''a.png'')
   \<and> retained default_formats ''A.PNG'' = retained default_formats ''a.png''
   \<and> list_all (\<lambda>e. str_lower e = e) default_formats
   \<and> matches_case_insensitive default_formats ''A.PNG''
   \<and> retained default_formats = matches_case_insensitive default_formats"
proof -
  have a: "filter (retained default_formats) [''A.PNG'', ''notes.txt'', ''b.jpeg'']
             = [''A.PNG'', ''b.jpeg'']" by code_simp
  have b: "filter (\<lambda>f. \<not> retained default_formats f) [''A.PNG'', ''notes.txt'', ''b.jpeg'']
       = [''notes.txt'']" by code_simp
  have c: "str_lower (path_suffix ''A.PNG'') = str_lower (path_suffix ''a.png'')" by code_simp
  have d: "\<forall>e\<in>set default_formats. str_lower e = e" by code_simp
  have e: "matches_case_insensitive default_formats ''A.PNG''" by code_simp
  have j: "map (\<lambda>f. (join ''/work/in'' f, f)) [''A.PNG'', ''b.jpeg'']
             = [(''/work/in/A.PNG'', ''A.PNG''), (''/work/in/b.jpeg'', ''b.jpeg'')]" by code_simp
  note T = collect_returns_retained[of default_formats "''/work/in''"
      "[''A.PNG'', ''notes.txt'', ''b.jpeg'']" "''A.PNG''" "''a.png''"]
  from T have "collect_loop default_formats ''/work/in'' [''A.PNG'', ''notes.txt'', ''b.jpeg''] [] =
     map (\<lambda>f. (join ''/work/in'' f, f))
       (filter (retained default_formats) [''A.PNG'', ''notes.txt'', ''b.jpeg''])"
    by (rule conjunct1)
  then have t1: "collect_loop default_formats ''/work/in'' [''A.PNG'', ''notes.txt'', ''b.jpeg''] [] =
     [(''/work/in/A.PNG'', ''A.PNG''), (''/work/in/b.jpeg'', ''b.jpeg'')]"
    unfolding a j .
  from T c have t3: "retained default_formats ''A.PNG'' = retained default_formats ''a.png''"
    by blast
  from T d have t4: "retained default_formats = matches_case_insensitive default_formats"
    by blast
  from d have d': "list_all (\<lambda>e. str_lower e = e) default_formats"
    by (simp only: list_all_iff)
  from t1 b c t3 d' e t4 show ?thesis by blast
qed

text \<open>
  Claim C7, as stated, fails: the entries \<open>..png\<close> and \<open>..jpg\<close> are both accepted by the
  scan with the default extensions, their suffixes being \<open>.png\<close> and \<open>.jpg\<close> after the
  same stem, and their markdown files are named \<open>..png.md\<close> and \<open>..jpg.md\<close>: the name
  keeps the extension and differs with it.
\<close>

theorem md_name_depends_on_extension:
  "retained default_formats ''..png'' \<and> retained default_formats ''..jpg'' \<and>
   path_suffix (''.'' @ ''.png'') = ''.png'' \<and> path_suffix (''.'' @ ''.jpg'') = ''.jpg'' \<and>
   md_name (''.'' @ ''.png'') = ''..png.md'' \<and> md_name (''.'' @ ''.jpg'') = ''..jpg.md''"
  by code_simp

text \<open>
  Claim C7, amended. For a file name made of a stem that has a character other than the
  dot, a dot, and an extension without a dot (neither holding a path separator), the
  name of the markdown file is the stem with \<open>.md\<close> appended: it is a function of the
  stem alone, whatever the extension and its case. (\<open>os.path.splitext\<close> counts a name
  whose text before the last dot is made of dots only as having no extension.)
\<close>

theorem md_name_of_stem:
  assumes "\<exists>c\<in>set stem. c \<noteq> CHR ''.''" and "CHR ''/'' \<notin> set stem"
    and "CHR ''/'' \<notin> set ext" and "CHR ''.'' \<notin> set ext"
  shows "md_name (stem @ CHR ''.'' # ext) = stem @ ''.md''"
  using assms(1) by (simp add: md_name_def splitext_split[OF assms(2-4)])

theorem md_name_of_stem_witness:
  "(\<exists>c\<in>set ''photo1''. c \<noteq> CHR ''.'') \<and> CHR ''/'' \<notin> set ''photo1'' \<and>
   CHR ''/'' \<notin> set ''JPG'' \<and> CHR ''.'' \<notin> set ''JPG'' \<and>
   md_name ''photo1.JPG'' = ''photo1.md'' \<and> md_name ''photo1.jpg'' = ''photo1.md''"
proof -
  have h1: "\<exists>c\<in>set ''photo1''. c \<noteq> CHR ''.''" by simp
  have h2: "CHR ''/'' \<notin> set ''photo1''" by simp
  have h3: "CHR ''/'' \<notin> set ''JPG''" "CHR ''.'' \<notin> set ''JPG''" by simp_all
  have h4: "CHR ''/'' \<notin> set ''jpg''" "CHR ''.'' \<notin> set ''jpg''" by simp_all
  from md_name_of_stem[OF h1 h2 h3] md_name_of_stem[OF h1 h2 h4] h1 h2 h3
  show ?thesis by simp
qed

section \<open>Facts about a run of \<open>process_directory\<close>\<close>


lemma process_directory_invalid:
  assumes "\<not> (path_exists E (world s) (abspath E (world s) input_directory)
              \<and> path_isdir E (world s) (abspath E (world s) input_directory))"
  shows "process_directory E P input_directory opts s =
           (Inl (invalid_directory (abspath E (world s) input_directory)), s)"
  using assms
  by (cases "path_exists E (world s) (abspath E (world s) input_directory)")
     (simp_all add: process_directory_def Let_def)

lemma process_directory_valid:
  assumes "path_exists E (world s) (abspath E (world s) input_directory)"
    and "path_isdir E (world s) (abspath E (world s) input_directory)"
  shows "process_directory E P input_directory opts s =
           (case listdir E (world s) (abspath E (world s) input_directory) of
              Inl e \<Rightarrow> (Inl e, s)
            | Inr files \<Rightarrow>
                (case load_datasets E P (collect_loop (supported_formats P)
                        (abspath E (world s) input_directory) files []) s of
                   (Inl e, s2) \<Rightarrow> (Inl e, s2)
                 | (Inr (dss, ds_paths), s2) \<Rightarrow>
                     if dss = [] then (Inl no_valid_images, s2)
                     else process_images E P dss ds_paths opts s2))"
  using assms
  by (simp add: process_directory_def collect_image_files_def Let_def split: sum.splits)

lemma process_directory_cases:
  assumes "process_directory E P input_directory opts s = (r, s')"
  obtains
    (invalid) "\<not> (path_exists E (world s) (abspath E (world s) input_directory)
                 \<and> path_isdir E (world s) (abspath E (world s) input_directory))"
      "r = Inl (invalid_directory (abspath E (world s) input_directory))" "s' = s"
  | (listing_failed) e where
      "path_exists E (world s) (abspath E (world s) input_directory)"
      "path_isdir E (world s) (abspath E (world s) input_directory)"
      "listdir E (world s) (abspath E (world s) input_directory) = Inl e"
      "r = Inl e" "s' = s"
  | (load_aborted) files e where
      "path_exists E (world s) (abspath E (world s) input_directory)"
      "path_isdir E (world s) (abspath E (world s) input_directory)"
      "listdir E (world s) (abspath E (world s) input_directory) = Inr files"
      "load_datasets E P (collect_loop (supported_formats P)
          (abspath E (world s) input_directory) files []) s = (Inl e, s')"
      "r = Inl e"
  | (none_loaded) files ds_paths where
      "path_exists E (world s) (abspath E (world s) input_directory)"
      "path_isdir E (world s) (abspath E (world s) input_directory)"
      "listdir E (world s) (abspath E (world s) input_directory) = Inr files"
      "load_datasets E P (collect_loop (supported_formats P)
          (abspath E (world s) input_directory) files []) s = (Inr ([], ds_paths), s')"
      "r = Inl no_valid_images"
  | (images_processed) files dss ds_paths s2 where
      "path_exists E (world s) (abspath E (world s) input_directory)"
      "path_isdir E (world s) (abspath E (world s) input_directory)"
      "listdir E (world s) (abspath E (world s) input_directory) = Inr files"
      "load_datasets E P (collect_loop (supported_formats P)
          (abspath E (world s) input_directory) files []) s = (Inr (dss, ds_paths), s2)"
      "dss \<noteq> []"
      "process_images E P dss ds_paths opts s2 = (r, s')"
proof -
  let ?d = "abspath E (world s) input_directory"
  show thesis
  proof (cases "path_exists E (world s) ?d \<and> path_isdir E (world s) ?d")
    case False
    with assms process_directory_invalid[OF False, of P opts] show thesis
      by (intro invalid) auto
  next
    case valid: True
    show thesis
    proof (cases "listdir E (world s) ?d")
      case (Inl e)
      with assms valid show thesis
        by (intro listing_failed[of e])
           (auto simp: process_directory_valid)
    next
      case (Inr files)
      obtain r2 s2 where ld: "load_datasets E P (collect_loop (supported_formats P) ?d files []) s
                               = (r2, s2)"
        by (cases "load_datasets E P (collect_loop (supported_formats P) ?d files []) s")
      show thesis
      proof (cases r2)
        case (Inl e)
        with assms valid Inr ld show thesis
          by (intro load_aborted[of files e])
             (auto simp: process_directory_valid)
      next
        case loaded: (Inr v)
        obtain dss ds_paths where v: "v = (dss, ds_paths)" by (cases v)
        show thesis
        proof (cases "dss = []")
          case True
          with assms valid Inr ld loaded v show thesis
            by (intro none_loaded[of files ds_paths])
               (auto simp: process_directory_valid)
        next
          case False
          with assms valid Inr ld loaded v show thesis
            by (intro images_processed[of files dss ds_paths s2])
               (auto simp: process_directory_valid)
        qed
      qed
    qed
  qed
qed

lemma load_datasets_lengths:
  "load_datasets E P image_files s = (Inr (dss, ds_paths), s1) \<Longrightarrow> length dss = length ds_paths"
  unfolding load_datasets_def by (erule load_loop_lengths) simp

lemma process_images_Inr:
  assumes "process_images E P dss ds_paths opts s = (Inr (tot, processed, failed), s')"
  shows "tot = int (length dss) \<and>
         process_loop E P opts (zip dss ds_paths) 0 0 s = (Inr (processed, failed), s')"
  using assms
  by (auto simp: process_images_def Let_def split: prod.splits sum.splits)

lemma process_images_Inl:
  assumes "process_images E P dss ds_paths opts s = (Inl e, s')"
  shows "process_loop E P opts (zip dss ds_paths) 0 0 s = (Inl e, s')"
  using assms
  by (auto simp: process_images_def Let_def split: prod.splits sum.splits)

lemma process_directory_returns:
  assumes "process_directory E P input_directory opts s = (Inr (tot, processed, failed), s')"
  obtains files dss ds_paths s2 where
    "listdir E (world s) (abspath E (world s) input_directory) = Inr files"
    "load_datasets E P (collect_loop (supported_formats P)
        (abspath E (world s) input_directory) files []) s = (Inr (dss, ds_paths), s2)"
    "dss \<noteq> []" "length dss = length ds_paths" "tot = int (length dss)"
    "process_loop E P opts (zip dss ds_paths) 0 0 s2 = (Inr (processed, failed), s')"
  using assms
proof (cases rule: process_directory_cases)
  case (images_processed files dss ds_paths s2)
  from process_images_Inr[OF images_processed(6)] load_datasets_lengths[OF images_processed(4)]
    images_processed(3,4,5) that
  show thesis by blast
qed simp_all


lemma process_directory_counts_exact:
  assumes "process_directory E P input_directory opts s = (Inr (tot, processed, failed), s')"
    and "\<And>w e. fst (clean_memory E w) = Inl e \<Longrightarrow> \<not> is_Exception e"
  shows "processed + failed = tot"
  using assms(1)
proof (cases rule: process_directory_returns)
  case (1 files dss ds_paths s2)
  from process_loop_counts_exact[OF assms(2) 1(6)] 1(4,5) show ?thesis by simp
qed

text \<open>
  Claim C1 fails on the code. One file is found and loaded, its transform succeeds
  (\<open>processed\<close> becomes 1) and the call of \<open>clean_memory\<close> that follows inside the same
  \<open>try\<close> raises a \<open>RuntimeError\<close>: the \<open>except\<close> clause counts the item as failed too, and
  the run returns \<open>(1, 1, 1)\<close>, where succeeded + failed is 2 and total is 1.
\<close>

theorem clean_memory_failure_counted_twice:
  "process_directory
     (demo_engine [''a.png''] demo_load demo_transform (Inl (Exn OtherException ''CUDA error'')))
     demo_processor ''in'' demo_options start =
   (Inr (1, 1, 1),
    \<lparr>world = 3,
     calls = [ReadImages ''/work/in/a.png'', Transform ''a.png'' ''a.md'', CleanMemory]\<rparr>)"
  by code_simp


lemma load_datasets_no_transform:
  "load_datasets E P image_files s = (r, s') \<Longrightarrow>
     filter is_Transform (calls s') = filter is_Transform (calls s)"
  unfolding load_datasets_def by (rule load_loop_no_transform)







text \<open>
  Claim C4, as stated, fails: a missing input directory and a directory without any
  usable image both surface as an exception of the one class \<open>ValueError\<close>, so the two
  failures are not of distinct error kinds.
\<close>

theorem directory_errors_share_class:
  "error_class (process_directory (demo_engine [''notes.txt''] demo_load demo_transform (Inr ()))
       demo_processor ''missing'' demo_options start) = Some ValueError
   \<and> error_class (process_directory (demo_engine [''notes.txt''] demo_load demo_transform (Inr ()))
       demo_processor ''in'' demo_options start) = Some ValueError"
  by code_simp

text \<open>
  Claim C4, amended. A missing or non-directory input path makes \<open>process_directory\<close>
  raise \<open>ValueError("Invalid directory: <absolute path>")\<close> with the state of the run
  unchanged; a load stage that yields no dataset makes it raise
  \<open>ValueError("No valid images could be loaded")\<close> with no item transformed. Both errors
  are of the class \<open>ValueError\<close> and they differ in their messages.
\<close>

theorem directory_errors_fatal:
  "(\<not> (path_exists E (world s) (abspath E (world s) input_directory)
        \<and> path_isdir E (world s) (abspath E (world s) input_directory))
    \<longrightarrow> process_directory E P input_directory opts s =
          (Inl (invalid_directory (abspath E (world s) input_directory)), s))
   \<and> (path_exists E (world s) (abspath E (world s) input_directory)
      \<and> path_isdir E (world s) (abspath E (world s) input_directory)
      \<and> listdir E (world s) (abspath E (world s) input_directory) = Inr files
      \<and> load_datasets E P (collect_loop (supported_formats P)
            (abspath E (world s) input_directory) files []) s = (Inr ([], ds_paths), s2)
    \<longrightarrow> process_directory E P input_directory opts s = (Inl no_valid_images, s2)
        \<and> filter is_Transform (calls s2) = filter is_Transform (calls s))
   \<and> exn_class (invalid_directory (abspath E (world s) input_directory)) = ValueError
   \<and> exn_class no_valid_images = ValueError
   \<and> exn_msg (invalid_directory (abspath E (world s) input_directory)) \<noteq> exn_msg no_valid_images"
proof (intro conjI impI)
  assume "\<not> (path_exists E (world s) (abspath E (world s) input_directory)
        \<and> path_isdir E (world s) (abspath E (world s) input_directory))"
  then show "process_directory E P input_directory opts s =
          (Inl (invalid_directory (abspath E (world s) input_directory)), s)"
    by (rule process_directory_invalid)
next
  assume a: "path_exists E (world s) (abspath E (world s) input_directory)
      \<and> path_isdir E (world s) (abspath E (world s) input_directory)
      \<and> listdir E (world s) (abspath E (world s) input_directory) = Inr files
      \<and> load_datasets E P (collect_loop (supported_formats P)
            (abspath E (world s) input_directory) files []) s = (Inr ([], ds_paths), s2)"
  then show "process_directory E P input_directory opts s = (Inl no_valid_images, s2)"
    by (simp add: process_directory_valid)
  from a show "filter is_Transform (calls s2) = filter is_Transform (calls s)"
    using load_datasets_no_transform by blast
qed (simp_all add: invalid_directory_def no_valid_images_def)

theorem directory_errors_fatal_witness:
  "\<not> (path_exists (demo_engine [''bad.png''] demo_load demo_transform (Inr ()))
          (world start) ''/work/missing''
       \<and> path_isdir (demo_engine [''bad.png''] demo_load demo_transform (Inr ()))
          (world start) ''/work/missing'')
   \<and> process_directory (demo_engine [''bad.png''] demo_load demo_transform (Inr ()))
        demo_processor ''missing'' demo_options start =
      (Inl (Exn ValueError ''Invalid directory: /work/missing''), start)
   \<and> load_datasets (demo_engine [''bad.png''] demo_load demo_transform (Inr ())) demo_processor
        [(''/work/in/bad.png'', ''bad.png'')] start =
      (Inr ([], []), \<lparr>world = 1, calls = [ReadImages ''/work/in/bad.png'']\<rparr>)
   \<and> process_directory (demo_engine [''bad.png''] demo_load demo_transform (Inr ()))
        demo_processor ''in'' demo_options start =
      (Inl (Exn ValueError ''No valid images could be loaded''),
       \<lparr>world = 1, calls = [ReadImages ''/work/in/bad.png'']\<rparr>)"
proof -
  let ?E = "demo_engine [''bad.png''] demo_load demo_transform (Inr ())"
  let ?s2 = "\<lparr>world = 1, calls = [ReadImages ''/work/in/bad.png'']\<rparr> :: (nat, string) run_state"
  have a: "abspath ?E (world start) ''missing'' = ''/work/missing''"
          "abspath ?E (world start) ''in'' = ''/work/in''" by code_simp+
  have h0: "\<not> (path_exists ?E (world start) ''/work/missing''
               \<and> path_isdir ?E (world start) ''/work/missing'')" by code_simp
  have h1: "path_exists ?E (world start) ''/work/in''" "path_isdir ?E (world start) ''/work/in''"
    "listdir ?E (world start) ''/work/in'' = Inr [''bad.png'']" by code_simp+
  have c: "collect_loop (supported_formats demo_processor) ''/work/in'' [''bad.png''] []
             = [(''/work/in/bad.png'', ''bad.png'')]" by code_simp
  have h2: "load_datasets ?E demo_processor [(''/work/in/bad.png'', ''bad.png'')] start
             = (Inr ([], []), ?s2)" by code_simp
  have m: "invalid_directory ''/work/missing'' = Exn ValueError ''Invalid directory: /work/missing''"
          "no_valid_images = Exn ValueError ''No valid images could be loaded''" by code_simp+
  from directory_errors_fatal[of ?E start "''missing''" demo_processor demo_options,
      unfolded a] h0
  have c1: "process_directory ?E demo_processor ''missing'' demo_options start =
      (Inl (invalid_directory ''/work/missing''), start)" by blast
  from directory_errors_fatal[of ?E start "''in''" demo_processor demo_options
      "[''bad.png'']" "[]" ?s2, unfolded a c] h1 h2
  have c2: "process_directory ?E demo_processor ''in'' demo_options start
              = (Inl no_valid_images, ?s2)" by blast
  from h0 c1[unfolded m] h2 c2[unfolded m] show ?thesis by blast
qed

text \<open>
  Claim C5, as stated, fails: the one item of this run fails in its transform, and the
  run ends having called the transform and never \<open>clean_memory\<close>.
\<close>

theorem clean_memory_skipped_after_failure:
  "process_directory (demo_engine [''corrupt.jpg''] demo_load demo_transform (Inr ()))
     demo_processor ''in'' demo_options start =
   (Inr (1, 0, 1),
    \<lparr>world = 2,
     calls = [ReadImages ''/work/in/corrupt.jpg'', Transform ''corrupt.jpg'' ''corrupt.md'']\<rparr>)"
  by code_simp

text \<open>
  Claim C5, amended. After an item whose transform succeeded, \<open>clean_memory\<close> is called
  once, directly after the transform and before the next item; after an item whose
  transform failed it is not called. In the calls of any run of the loop, every call of
  \<open>clean_memory\<close> follows a transform directly and no transform is followed by two, and
  in a run that returns there are as many calls of \<open>clean_memory\<close> as items counted as
  processed.
\<close>

theorem clean_memory_after_success_only:
  "(apply_pipe_dump E (world s) ds opts (image_writer P) (md_writer P)
        (md_name image_name) (image_dir_name P) = (Inr (), w1)
      \<and> clean_memory E w1 = (Inr (), w2)
    \<longrightarrow> process_loop E P opts ((ds, image_name) # rest) processed failed s =
          process_loop E P opts rest (processed + 1) failed
            \<lparr>world = w2, calls = calls s @ [Transform ds (md_name image_name), CleanMemory]\<rparr>)
   \<and> (is_Exception e \<and>
      apply_pipe_dump E (world s) ds opts (image_writer P) (md_writer P)
        (md_name image_name) (image_dir_name P) = (Inl e, w1)
    \<longrightarrow> process_loop E P opts ((ds, image_name) # rest) processed failed s =
          process_loop E P opts rest processed (failed + 1)
            \<lparr>world = w1, calls = calls s @ [Transform ds (md_name image_name)]\<rparr>)
   \<and> (process_loop E P opts items p f s0 = (r, s')
    \<longrightarrow> (\<exists>new. calls s' = calls s0 @ new \<and> clean_follows_transform new))
   \<and> (process_loop E P opts items p f s0 = (Inr (p', f'), s'')
    \<longrightarrow> int (length (filter is_CleanMemory (calls s''))) =
          int (length (filter is_CleanMemory (calls s0))) + (p' - p))"
  using process_loop_calls[of E P opts items p f s0 r s']
    process_loop_cleans[of E P opts items p f s0 p' f' s'']
  by (auto simp: Let_def)

theorem clean_memory_after_success_only_witness:
  "process_loop (demo_engine [] demo_load demo_transform (Inr ())) demo_processor demo_options
        [(''a.png'', ''a.png''), (''corrupt.jpg'', ''corrupt.jpg'')] 0 0 start =
      process_loop (demo_engine [] demo_load demo_transform (Inr ())) demo_processor demo_options
        [(''corrupt.jpg'', ''corrupt.jpg'')] (0 + 1) 0
        \<lparr>world = 2, calls = calls start @ [Transform ''a.png'' (md_name ''a.png''), CleanMemory]\<rparr>
   \<and> is_Exception (Exn OtherException ''analysis failed'')
   \<and> process_loop (demo_engine [] demo_load demo_transform (Inr ())) demo_processor demo_options
        [(''corrupt.jpg'', ''corrupt.jpg''), (''b.png'', ''b.png'')] 0 0 start =
      process_loop (demo_engine [] demo_load demo_transform (Inr ())) demo_processor demo_options
        [(''b.png'', ''b.png'')] 0 (0 + 1)
        \<lparr>world = 1, calls = calls start @ [Transform ''corrupt.jpg'' (md_name ''corrupt.jpg'')]\<rparr>
   \<and> process_loop (demo_engine [] demo_load demo_transform (Inr ())) demo_processor demo_options
        [(''a.png'', ''a.png''), (''corrupt.jpg'', ''corrupt.jpg''), (''b.png'', ''b.png'')] 0 0 start =
      (Inr (2, 1),
       \<lparr>world = 5,
        calls = [Transform ''a.png'' ''a.md'', CleanMemory, Transform ''corrupt.jpg'' ''corrupt.md'',
                 Transform ''b.png'' ''b.md'', CleanMemory]\<rparr>)
   \<and> clean_follows_transform
        [Transform ''a.png'' ''a.md'', CleanMemory, Transform ''corrupt.jpg'' ''corrupt.md'',
         Transform ''b.png'' ''b.md'', CleanMemory]
   \<and> int (length (filter is_CleanMemory
        [Transform ''a.png'' ''a.md'', CleanMemory, Transform ''corrupt.jpg'' ''corrupt.md'',
         Transform ''b.png'' ''b.md'', CleanMemory :: string event])) = 2"
proof -
  let ?E = "demo_engine [] demo_load demo_transform (Inr ())"
  let ?cs = "[Transform ''a.png'' ''a.md'', CleanMemory, Transform ''corrupt.jpg'' ''corrupt.md'',
         Transform ''b.png'' ''b.md'', CleanMemory] :: string event list"
  have h1: "apply_pipe_dump ?E (world start) ''a.png'' demo_options
              (image_writer demo_processor) (md_writer demo_processor)
              (md_name ''a.png'') (image_dir_name demo_processor) = (Inr (), 1)"
           "clean_memory ?E 1 = (Inr (), 2)" by code_simp+
  have h2: "is_Exception (Exn OtherException ''analysis failed'')"
           "apply_pipe_dump ?E (world start) ''corrupt.jpg'' demo_options
              (image_writer demo_processor) (md_writer demo_processor)
              (md_name ''corrupt.jpg'') (image_dir_name demo_processor)
            = (Inl (Exn OtherException ''analysis failed''), 1)" by code_simp+
  have r: "process_loop ?E demo_processor demo_options
        [(''a.png'', ''a.png''), (''corrupt.jpg'', ''corrupt.jpg''), (''b.png'', ''b.png'')] 0 0 start
        = (Inr (2, 1), \<lparr>world = 5, calls = ?cs\<rparr>)" by code_simp
  from clean_memory_after_success_only[of ?E start "''a.png''" demo_options demo_processor
      "''a.png''" 1 2 "[(''corrupt.jpg'', ''corrupt.jpg'')]" 0 0] h1
  have c1: "process_loop ?E demo_processor demo_options
        [(''a.png'', ''a.png''), (''corrupt.jpg'', ''corrupt.jpg'')] 0 0 start =
      process_loop ?E demo_processor demo_options [(''corrupt.jpg'', ''corrupt.jpg'')] (0 + 1) 0
        \<lparr>world = 2, calls = calls start @ [Transform ''a.png'' (md_name ''a.png''), CleanMemory]\<rparr>"
    by blast
  from clean_memory_after_success_only[of ?E start "''corrupt.jpg''" demo_options demo_processor
      "''corrupt.jpg''" 1 _ "[(''b.png'', ''b.png'')]" 0 0 "Exn OtherException ''analysis failed''"] h2
  have c2: "process_loop ?E demo_processor demo_options
        [(''corrupt.jpg'', ''corrupt.jpg''), (''b.png'', ''b.png'')] 0 0 start =
      process_loop ?E demo_processor demo_options [(''b.png'', ''b.png'')] 0 (0 + 1)
        \<lparr>world = 1, calls = calls start @ [Transform ''corrupt.jpg'' (md_name ''corrupt.jpg'')]\<rparr>"
    by blast
  from clean_memory_after_success_only[of ?E start _ demo_options demo_processor
      _ _ _ _ _ _ _
      "[(''a.png'', ''a.png''), (''corrupt.jpg'', ''corrupt.jpg''), (''b.png'', ''b.png'')]"
      0 0 start "Inr (2, 1)" "\<lparr>world = 5, calls = ?cs\<rparr>" 2 1 "\<lparr>world = 5, calls = ?cs\<rparr>"] r
  have c34: "(\<exists>new. ?cs = calls start @ new \<and> clean_follows_transform new)"
       "int (length (filter is_CleanMemory ?cs)) =
          int (length (filter is_CleanMemory (calls start))) + (2 - 0)"
    by simp_all
  have st: "calls start = ([] :: string event list)" by code_simp
  from c34(1) have c3: "clean_follows_transform ?cs" unfolding st by simp
  from c34(2) have c4: "int (length (filter is_CleanMemory ?cs)) = 2" unfolding st by simp
  from c1 h2(1) c2 r c3 c4 show ?thesis by blast
qed

text \<open>
  Claim C8. The two lists produced by loading have the same length. The loop hands the
  pairs of \<open>zip(dss, ds_paths)\<close> to the transform one after the other: in a run of
  \<open>_process_images\<close> that returns, the transforms called are those of all the pairs, each
  once and in order; in a run that an exception leaves, they are those of a non-empty
  initial part of the pairs, each once and in order. For a run of \<open>process_directory\<close>
  that returns, \<open>total\<close> is the number of loaded datasets and each of them is
  transformed exactly once, in order.
\<close>

theorem each_item_transformed_once:
  "(load_datasets E P image_files s = (Inr (dss, ds_paths), s1)
    \<longrightarrow> length dss = length ds_paths)
   \<and> (process_images E P dss' ds_paths' opts s = (Inr v, s')
    \<longrightarrow> filter is_Transform (calls s') =
          filter is_Transform (calls s) @ map transform_of (zip dss' ds_paths'))
   \<and> (process_images E P dss' ds_paths' opts s = (Inl e, s')
    \<longrightarrow> (\<exists>k<length (zip dss' ds_paths').
           filter is_Transform (calls s') =
             filter is_Transform (calls s)
               @ map transform_of (take (Suc k) (zip dss' ds_paths'))))
   \<and> (process_directory E P input_directory opts s = (Inr (tot, processed, failed), s'')
    \<longrightarrow> (\<exists>loaded names.
           length loaded = length names \<and> tot = int (length loaded) \<and>
           filter is_Transform (calls s'') =
             filter is_Transform (calls s) @ map transform_of (zip loaded names)))"
proof (intro conjI impI)
  assume "load_datasets E P image_files s = (Inr (dss, ds_paths), s1)"
  then show "length dss = length ds_paths" by (rule load_datasets_lengths)
next
  assume a: "process_images E P dss' ds_paths' opts s = (Inr v, s')"
  obtain t p f where v: "v = (t, p, f)" by (cases v)
  from process_images_Inr[OF a[unfolded v]] process_loop_transforms
  show "filter is_Transform (calls s') =
          filter is_Transform (calls s) @ map transform_of (zip dss' ds_paths')"
    by blast
next
  assume "process_images E P dss' ds_paths' opts s = (Inl e, s')"
  from process_loop_transforms_aborted[OF process_images_Inl[OF this]]
  show "\<exists>k<length (zip dss' ds_paths').
           filter is_Transform (calls s') =
             filter is_Transform (calls s)
               @ map transform_of (take (Suc k) (zip dss' ds_paths'))" .
next
  assume "process_directory E P input_directory opts s = (Inr (tot, processed, failed), s'')"
  then show "\<exists>loaded names.
           length loaded = length names \<and> tot = int (length loaded) \<and>
           filter is_Transform (calls s'') =
             filter is_Transform (calls s) @ map transform_of (zip loaded names)"
  proof (cases rule: process_directory_returns)
    case (1 files dss ds_paths s2)
    from process_loop_transforms[OF 1(6)] load_datasets_no_transform[OF 1(2)]
    have "filter is_Transform (calls s'') =
             filter is_Transform (calls s) @ map transform_of (zip dss ds_paths)" by simp
    with 1(4,5) show ?thesis by blast
  qed
qed

theorem each_item_transformed_once_witness:
  "load_datasets (demo_engine [] demo_load demo_transform (Inr ())) demo_processor
      [(''/work/in/a.png'', ''a.png''), (''/work/in/bad.png'', ''bad.png''),
       (''/work/in/corrupt.jpg'', ''corrupt.jpg'')] start =
     (Inr ([''a.png'', ''corrupt.jpg''], [''a.png'', ''corrupt.jpg'']),
      \<lparr>world = 3, calls = [ReadImages ''/work/in/a.png'', ReadImages ''/work/in/bad.png'',
                           ReadImages ''/work/in/corrupt.jpg'']\<rparr>)
   \<and> length [''a.png'', ''corrupt.jpg''] = length [''a.png'', ''corrupt.jpg'']
   \<and> process_directory
        (demo_engine [''a.png'', ''bad.png'', ''notes.txt'', ''corrupt.jpg'', ''B.JPEG'']
           demo_load demo_transform (Inr ()))
        demo_processor ''in'' demo_options start =
      (Inr (3, 2, 1),
       \<lparr>world = 9,
        calls = [ReadImages ''/work/in/a.png'', ReadImages ''/work/in/bad.png'',
                 ReadImages ''/work/in/corrupt.jpg'', ReadImages ''/work/in/B.JPEG'',
                 Transform ''a.png'' ''a.md'', CleanMemory,
                 Transform ''corrupt.jpg'' ''corrupt.md'',
                 Transform ''B.JPEG'' ''B.md'', CleanMemory]\<rparr>)
   \<and> (\<exists>loaded names. length loaded = length names \<and> (3::int) = int (length loaded) \<and>
        [Transform ''a.png'' ''a.md'', Transform ''corrupt.jpg'' ''corrupt.md'',
         Transform ''B.JPEG'' ''B.md''] = map transform_of (zip loaded names))
   \<and> process_images (demo_engine [] demo_load demo_transform (Inl (Exn BaseExceptionOnly ''KeyboardInterrupt'')))
        demo_processor [''a.png'', ''b.png''] [''a.png'', ''b.png''] demo_options start =
      (Inl (Exn BaseExceptionOnly ''KeyboardInterrupt''),
       \<lparr>world = 2, calls = [Transform ''a.png'' ''a.md'', CleanMemory]\<rparr>)"
proof -
  let ?E = "demo_engine [] demo_load demo_transform (Inr ())"
  let ?F = "demo_engine [''a.png'', ''bad.png'', ''notes.txt'', ''corrupt.jpg'', ''B.JPEG'']
           demo_load demo_transform (Inr ())"
  let ?s = "\<lparr>world = 9,
        calls = [ReadImages ''/work/in/a.png'', ReadImages ''/work/in/bad.png'',
                 ReadImages ''/work/in/corrupt.jpg'', ReadImages ''/work/in/B.JPEG'',
                 Transform ''a.png'' ''a.md'', CleanMemory,
                 Transform ''corrupt.jpg'' ''corrupt.md'',
                 Transform ''B.JPEG'' ''B.md'', CleanMemory]\<rparr> :: (nat, string) run_state"
  have h1: "load_datasets ?E demo_processor
      [(''/work/in/a.png'', ''a.png''), (''/work/in/bad.png'', ''bad.png''),
       (''/work/in/corrupt.jpg'', ''corrupt.jpg'')] start =
     (Inr ([''a.png'', ''corrupt.jpg''], [''a.png'', ''corrupt.jpg'']),
      \<lparr>world = 3, calls = [ReadImages ''/work/in/a.png'', ReadImages ''/work/in/bad.png'',
                           ReadImages ''/work/in/corrupt.jpg'']\<rparr>)" by code_simp
  have h2: "process_directory ?F demo_processor ''in'' demo_options start = (Inr (3, 2, 1), ?s)"
    by code_simp
  have h3: "process_images (demo_engine [] demo_load demo_transform (Inl (Exn BaseExceptionOnly ''KeyboardInterrupt'')))
        demo_processor [''a.png'', ''b.png''] [''a.png'', ''b.png''] demo_options start =
      (Inl (Exn BaseExceptionOnly ''KeyboardInterrupt''),
       \<lparr>world = 2, calls = [Transform ''a.png'' ''a.md'', CleanMemory]\<rparr>)" by code_simp
  have f: "filter is_Transform (calls ?s) =
             [Transform ''a.png'' ''a.md'', Transform ''corrupt.jpg'' ''corrupt.md'',
              Transform ''B.JPEG'' ''B.md'']"
          "filter is_Transform (calls start) = ([] :: string event list)" by code_simp+
  note T = each_item_transformed_once[of ?E demo_processor
      "[(''/work/in/a.png'', ''a.png''), (''/work/in/bad.png'', ''bad.png''),
       (''/work/in/corrupt.jpg'', ''corrupt.jpg'')]" start
      "[''a.png'', ''corrupt.jpg'']" "[''a.png'', ''corrupt.jpg'']"]
  from T h1 have c1: "length [''a.png'', ''corrupt.jpg''] = length [''a.png'', ''corrupt.jpg'']"
    by blast
  from each_item_transformed_once[of ?F demo_processor _ start _ _ _ _ _ demo_options _ _ _
      "''in''" 3 2 1 ?s] h2
  have "\<exists>loaded names. length loaded = length names \<and> (3::int) = int (length loaded) \<and>
           filter is_Transform (calls ?s) =
             filter is_Transform (calls start) @ map transform_of (zip loaded names)"
    by blast
  then have c2: "\<exists>loaded names. length loaded = length names \<and> (3::int) = int (length loaded) \<and>
        [Transform ''a.png'' ''a.md'', Transform ''corrupt.jpg'' ''corrupt.md'',
         Transform ''B.JPEG'' ''B.md''] = map transform_of (zip loaded names)"
    unfolding f by simp
  from h1 c1 h2 c2 h3 show ?thesis by blast
qed

end
